theory Spec2Isabelle
  imports Main "HOL-Library.Multiset"
begin

section \<open>Strings and formatting\<close>

text \<open>
  Go strings are byte sequences; they are modelled as \<open>char list\<close> (one \<open>char\<close> per
  byte).  \<open>fmt.Sprintf("%d", n)\<close> prints a signed decimal numeral.
\<close>

definition digit_char :: "nat \<Rightarrow> char" where
  "digit_char d = ''0123456789'' ! d"

function decimal :: "nat \<Rightarrow> string" where
  "decimal n = (if n < 10 then [digit_char n] else decimal (n div 10) @ [digit_char (n mod 10)])"
  by pat_completeness auto
termination
  by (relation "measure id") auto

declare decimal.simps [simp del]

definition Sprintf_d :: "int \<Rightarrow> string" where
  "Sprintf_d i = (if i < 0 then CHR ''-'' # decimal (nat (- i)) else decimal (nat i))"

section \<open>Request context\<close>

text \<open>
  The part of \<open>core.UniversalContext\<close> that routing, security and rate limiting read
  or write.  \<open>data\<close> is the side-data map (\<open>map[string]interface{}\<close>): a value is a
  string or something else.  \<open>routeParams\<close> is the parameter bag written by \<open>SetParam\<close>.
\<close>

datatype DataValue = DString string | DOther

record UniversalContext =
  userID :: int
  chatID :: int
  msgText :: string
  data :: "string \<rightharpoonup> DataValue"
  isCommand :: bool
  isCallback :: bool
  isMessage :: bool
  routeParams :: "string \<rightharpoonup> string"
  authenticated :: bool
  hasProfile :: bool
  roles :: "string list"
  hasPermission :: "string \<Rightarrow> bool"
  source :: string

definition SetParam :: "string \<Rightarrow> string \<Rightarrow> UniversalContext \<Rightarrow> UniversalContext" where
  "SetParam k v ctx = ctx\<lparr>routeParams := (routeParams ctx)(k \<mapsto> v)\<rparr>"

section \<open>Rate limiter (routing/security.go)\<close>

text \<open>
  Instants are integers (nanoseconds on the clock that \<open>time.Now\<close> reads); each call of
  \<open>Allow\<close> receives the instant \<open>time.Now()\<close> returned.  \<open>Window\<close> is a number of
  seconds; \<open>time.Duration(Window) * time.Second\<close> is a 64-bit signed product and
  wraps around.
\<close>

definition int64_wrap :: "int \<Rightarrow> int" where
  "int64_wrap x = (x + 2 ^ 63) mod 2 ^ 64 - 2 ^ 63"

definition Second :: int where
  "Second = 1000000000"

record RateLimitConfig =
  Requests :: int
  Window :: int
  BurstSize :: int
  Strategy :: string

record rateLimitCounter =
  Count :: int
  ResetAt :: int
  UpdatedAt :: int

record RateLimiter =
  config :: RateLimitConfig
  counters :: "string \<rightharpoonup> rateLimitCounter"

definition NewRateLimiter :: "RateLimitConfig \<Rightarrow> RateLimiter" where
  "NewRateLimiter cfg =
     \<lparr>config = (if Strategy cfg = [] then cfg\<lparr>Strategy := ''sliding_window''\<rparr> else cfg),
      counters = Map.empty\<rparr>"

definition getKey :: "UniversalContext \<Rightarrow> string" where
  "getKey ctx = ''user:'' @ Sprintf_d (userID ctx) @ '':chat:'' @ Sprintf_d (chatID ctx)"

definition windowDuration :: "RateLimiter \<Rightarrow> int" where
  "windowDuration r = int64_wrap (Window (config r) * Second)"

definition freshCounter :: "RateLimiter \<Rightarrow> int \<Rightarrow> rateLimitCounter" where
  "freshCounter r now = \<lparr>Count = 1, ResetAt = now + windowDuration r, UpdatedAt = now\<rparr>"

definition Allow :: "RateLimiter \<Rightarrow> UniversalContext \<Rightarrow> int \<Rightarrow> bool \<times> RateLimiter" where
  "Allow r ctx now =
     (let key = getKey ctx in
      case counters r key of
        None \<Rightarrow> (True, r\<lparr>counters := (counters r)(key \<mapsto> freshCounter r now)\<rparr>)
      | Some counter \<Rightarrow>
          if now > ResetAt counter
          then (True, r\<lparr>counters := (counters r)(key \<mapsto> freshCounter r now)\<rparr>)
          else if Count counter \<ge> Requests (config r) then (False, r)
          else (True, r\<lparr>counters := (counters r)(key \<mapsto>
                   counter\<lparr>Count := Count counter + 1, UpdatedAt := now\<rparr>)\<rparr>))"

definition Reset :: "RateLimiter \<Rightarrow> int \<Rightarrow> RateLimiter" where
  "Reset r uid = r\<lparr>counters := (counters r)((''user:'' @ Sprintf_d uid) := None)\<rparr>"

definition GetLimit :: "RateLimiter \<Rightarrow> int \<Rightarrow> int \<times> int \<times> int" where
  "GetLimit r uid =
     (case counters r (''user:'' @ Sprintf_d uid) of
        None \<Rightarrow> (0, Requests (config r), 0)
      | Some counter \<Rightarrow> (Count counter, Requests (config r), ResetAt counter div Second))"

text \<open>A run of consecutive \<open>Allow\<close> calls for one context, at the given instants.\<close>

fun AllowTimes :: "RateLimiter \<Rightarrow> UniversalContext \<Rightarrow> int list \<Rightarrow> bool list \<times> RateLimiter" where
  "AllowTimes r ctx [] = ([], r)"
| "AllowTimes r ctx (t # ts) =
     (case Allow r ctx t of (b, r') \<Rightarrow>
        (case AllowTimes r' ctx ts of (bs, r'') \<Rightarrow> (b # bs, r'')))"

text \<open>
  The condition under which \<open>Allow\<close> starts a new window: no counter is stored for
  the key, or \<open>now.After(counter.ResetAt)\<close>.
\<close>

definition expired :: "RateLimiter \<Rightarrow> UniversalContext \<Rightarrow> int \<Rightarrow> bool" where
  "expired r ctx now = (case counters r (getKey ctx) of None \<Rightarrow> True | Some c \<Rightarrow> now > ResetAt c)"

text \<open>Sample inputs: a command context of user 1 in conversation 1, and a new limiter.\<close>

definition ctx0 :: UniversalContext where
  "ctx0 = \<lparr>userID = 1, chatID = 1, msgText = ''hello'', data = Map.empty, isCommand = True,
           isCallback = False, isMessage = False, routeParams = Map.empty, authenticated = True,
           hasProfile = False, roles = [], hasPermission = (\<lambda>_. False), source = ''api''\<rparr>"

definition limiter :: "int \<Rightarrow> int \<Rightarrow> RateLimiter" where
  "limiter n w = NewRateLimiter \<lparr>Requests = n, Window = w, BurstSize = 0, Strategy = []\<rparr>"

section \<open>Event bus (events/bus.go)\<close>

text \<open>
  A Go \<open>error\<close> is modelled by its message.  A call of a function value supplied by a
  module either returns or panics; \<open>result\<close> records which.
\<close>

type_synonym error = string

datatype 'a result = Ok 'a | Panic string

record Event =
  evType :: string
  evSource :: string
  evUserID :: int
  evChatID :: int

text \<open>
  An event handler runs for its effect.  The effect is made explicit: a handler maps the
  state \<open>'w\<close> of everything it can touch to a new state, and returns an error, returns
  \<open>nil\<close>, or panics (the state reached before the panic is kept).  Filters are
  predicates on the event.  The logger and the metrics sink are collaborators whose calls
  return normally; they are left out.
\<close>

type_synonym 'w EventHandlerFunc = "Event \<Rightarrow> 'w \<Rightarrow> error option result \<times> 'w"

record 'w subscription =
  sub_handler :: "'w EventHandlerFunc"
  sub_filter :: "(Event \<Rightarrow> bool) option"
  sub_priority :: int

record 'w EventBus =
  subscribers :: "string \<rightharpoonup> 'w subscription list"
  bus_started :: bool


definition subscribersOf :: "'w EventBus \<Rightarrow> string \<Rightarrow> 'w subscription list" where
  "subscribersOf eb eventType = (case subscribers eb eventType of None \<Rightarrow> [] | Some subs \<Rightarrow> subs)"


definition SubscribeWithFilter ::
  "'w EventBus \<Rightarrow> string \<Rightarrow> 'w EventHandlerFunc option \<Rightarrow> (Event \<Rightarrow> bool) option \<Rightarrow> error option \<times> 'w EventBus" where
  "SubscribeWithFilter eb eventType handler flt =
     (case handler of
        None \<Rightarrow> (Some ''handler cannot be nil'', eb)
      | Some h \<Rightarrow>
          (None, eb\<lparr>subscribers := (subscribers eb)(eventType \<mapsto>
             subscribersOf eb eventType @ [\<lparr>sub_handler = h, sub_filter = flt, sub_priority = 50\<rparr>])\<rparr>))"







definition failed :: "error option result \<Rightarrow> bool" where
  "failed res = (res \<noteq> Ok None)"




section \<open>Route patterns (routing/pattern.go)\<close>

subsection \<open>Library functions the matcher calls\<close>

text \<open>
  \<open>strings.ToLower\<close> and \<open>strings.TrimSpace\<close> on ASCII: the letters \<open>A\<close> to \<open>Z\<close>
  are mapped to lower case, and the white space removed from both ends is tab, line feed,
  vertical tab, form feed, carriage return and space.  Bytes from \<open>0x80\<close> on (the
  UTF-8 encodings of the other letters and spaces of Unicode) are left as they are.
\<close>

definition ToLower_char :: "char \<Rightarrow> char" where
  "ToLower_char c =
     (case map_of (zip ''ABCDEFGHIJKLMNOPQRSTUVWXYZ'' ''abcdefghijklmnopqrstuvwxyz'') c of
        Some l \<Rightarrow> l | None \<Rightarrow> c)"

definition ToLower :: "string \<Rightarrow> string" where
  "ToLower s = map ToLower_char s"

definition isSpace :: "char \<Rightarrow> bool" where
  "isSpace c = (c \<in> set [CHR 0x09, CHR 0x0A, CHR 0x0B, CHR 0x0C, CHR 0x0D, CHR '' ''])"

definition TrimSpace :: "string \<Rightarrow> string" where
  "TrimSpace s = rev (dropWhile isSpace (rev (dropWhile isSpace s)))"

text \<open>
  \<open>regexp.QuoteMeta\<close> puts a backslash before each of the bytes
  \<^verbatim>\<open>\.+*?()|[]{}^$\<close>.
\<close>

definition backslash :: char where
  "backslash = CHR 0x5C"

definition specialBytes :: string where
  "specialBytes = backslash # ''.+*?()|[]{}^$''"

fun QuoteMeta :: "string \<Rightarrow> string" where
  "QuoteMeta [] = []"
| "QuoteMeta (c # cs) =
     (if c \<in> set specialBytes then backslash # c # QuoteMeta cs else c # QuoteMeta cs)"

text \<open>
  A compiled expression is used through two methods: \<open>SubexpNames\<close> (the names of the
  capture groups, entry 0 being the empty name of the whole match) and
  \<open>FindStringSubmatch\<close> (\<open>None\<close> for \<open>nil\<close>, otherwise the whole match followed by
  the text of each group).

  The expressions that this package hands to \<open>regexp\<close> are: the text \<^verbatim>\<open>.*\<close>, the
  six keys of the placeholder table, and the result of \<open>patternToRegex\<close>.  The model of
  the compiler covers expressions made of literal characters and escaped special bytes,
  alone or between \<^verbatim>\<open>^\<close> and \<^verbatim>\<open>$\<close>, and the text \<^verbatim>\<open>.*\<close>; any other expression
  is refused with an error of the model, and lemma \<open>Compile_succeeds\<close> below shows that
  no pattern leads to one.
\<close>

record Regexp =
  SubexpNames :: "string list"
  FindStringSubmatch :: "string \<Rightarrow> string list option"

fun literalOf :: "string \<Rightarrow> string option" where
  "literalOf [] = Some []"
| "literalOf (c # cs) =
     (if c = backslash
      then (case cs of
              [] \<Rightarrow> None
            | d # ds \<Rightarrow> if d \<in> set specialBytes then map_option ((#) d) (literalOf ds) else None)
      else if c \<in> set specialBytes then None
      else map_option ((#) c) (literalOf cs))"

definition anchoredLiteral :: "string \<Rightarrow> Regexp" where
  "anchoredLiteral lit =
     \<lparr>SubexpNames = [[]],
      FindStringSubmatch = (\<lambda>text. if text = lit then Some [text] else None)\<rparr>"

text \<open>\<^verbatim>\<open>.*\<close> is not anchored and the dot does not match a line feed: the leftmost match
  starts at the beginning of the text and runs to the first line feed.\<close>

definition dotStar :: Regexp where
  "dotStar =
     \<lparr>SubexpNames = [[]],
      FindStringSubmatch = (\<lambda>text. Some [takeWhile (\<lambda>c. c \<noteq> CHR 0x0A) text])\<rparr>"

definition unsupported :: error where
  "unsupported = ''expression outside the modelled subset''"

definition regexp_Compile :: "string \<Rightarrow> error + Regexp" where
  "regexp_Compile expr =
     (if expr = ''.*'' then Inr dotStar
      else case expr of
             [] \<Rightarrow> Inl unsupported
           | c # rest \<Rightarrow>
               if c = CHR ''^'' \<and> rest \<noteq> [] \<and> last rest = CHR ''$''
               then (case literalOf (butlast rest) of
                       Some lit \<Rightarrow> Inr (anchoredLiteral lit)
                     | None \<Rightarrow> Inl unsupported)
               else Inl unsupported)"

text \<open>
  \<open>regexp.MustCompile(old).ReplaceAllString(src, repl)\<close> for an expression \<open>old\<close> of
  literal characters and a replacement without \<^verbatim>\<open>$\<close>: every occurrence of the
  literal, found from left to right without overlap, is replaced by \<open>repl\<close>.
\<close>

function replaceAll :: "string \<Rightarrow> string \<Rightarrow> string \<Rightarrow> string" where
  "replaceAll lit repl [] = []"
| "replaceAll lit repl (c # cs) =
     (if lit \<noteq> [] \<and> take (length lit) (c # cs) = lit
      then repl @ replaceAll lit repl (drop (length lit) (c # cs))
      else c # replaceAll lit repl cs)"
  by pat_completeness auto
termination
  by (relation "measure (\<lambda>(lit, repl, src). length src)") auto

definition ReplaceAllString :: "string \<Rightarrow> string \<Rightarrow> string \<Rightarrow> string option" where
  "ReplaceAllString old src repl =
     (case literalOf old of
        Some lit \<Rightarrow> if lit \<noteq> [] \<and> CHR ''$'' \<notin> set repl then Some (replaceAll lit repl src) else None
      | None \<Rightarrow> None)"

text \<open>\<open>string(rune('0'+i))\<close>: the UTF-8 encoding of the code point \<open>48 + i\<close>.\<close>

definition utf8 :: "nat \<Rightarrow> string" where
  "utf8 n =
     (if n < 0x80 then [char_of n]
      else if n < 0x800 then [char_of (0xC0 + n div 64), char_of (0x80 + n mod 64)]
      else if (0xD800 \<le> n \<and> n < 0xE000) \<or> 0x10FFFF < n then [CHR 0xEF, CHR 0xBF, CHR 0xBD]
      else if n < 0x10000
        then [char_of (0xE0 + n div 4096), char_of (0x80 + n div 64 mod 64), char_of (0x80 + n mod 64)]
      else [char_of (0xF0 + n div 262144), char_of (0x80 + n div 4096 mod 64),
            char_of (0x80 + n div 64 mod 64), char_of (0x80 + n mod 64)])"

definition positionalKey :: "nat \<Rightarrow> string" where
  "positionalKey i = utf8 (48 + i)"

subsection \<open>Security rule (routing/security.go)\<close>

text \<open>\<open>ValidateFunc\<close> and the route handler are function values of the module: a call
  returns or panics.  \<open>OnFailure\<close> is not read by the functions below and is left out.\<close>

datatype Response = NewMessage string | NewSilentResponse | OtherResponse string

type_synonym HandlerFunc = "UniversalContext \<Rightarrow> Response result"

record SecurityRule =
  RequireAuth :: bool
  RequireRoles :: "string list"
  RequirePermissions :: "string list"
  RequireProfile :: bool
  AllowedSources :: "string list"
  RateLimit :: "RateLimitConfig option"
  ValidateFunc :: "(UniversalContext \<Rightarrow> error option result) option"

definition ErrNotAuthenticated :: error where "ErrNotAuthenticated = ''authentication required''"
definition ErrProfileRequired :: error where "ErrProfileRequired = ''profile required''"
definition ErrInsufficientRole :: error where "ErrInsufficientRole = ''insufficient role''"
definition ErrInsufficientPermission :: error where "ErrInsufficientPermission = ''insufficient permission''"
definition ErrSourceNotAllowed :: error where "ErrSourceNotAllowed = ''source not allowed''"

definition hasAnyRole :: "string list \<Rightarrow> string list \<Rightarrow> bool" where
  "hasAnyRole userRoles requiredRoles = (\<exists>required\<in>set requiredRoles. \<exists>userRole\<in>set userRoles. userRole = required)"

definition contains :: "string list \<Rightarrow> string \<Rightarrow> bool" where
  "contains slice item = (\<exists>s\<in>set slice. s = item)"

definition Check :: "SecurityRule \<Rightarrow> UniversalContext \<Rightarrow> error option result" where
  "Check s ctx =
     (if RequireAuth s \<and> \<not> authenticated ctx then Ok (Some ErrNotAuthenticated)
      else if RequireProfile s \<and> \<not> hasProfile ctx then Ok (Some ErrProfileRequired)
      else if length (RequireRoles s) > 0 \<and> \<not> hasAnyRole (roles ctx) (RequireRoles s)
        then Ok (Some ErrInsufficientRole)
      else case find (\<lambda>perm. \<not> hasPermission ctx perm) (RequirePermissions s) of
             Some perm \<Rightarrow> Ok (Some (ErrInsufficientPermission @ '': '' @ perm))
           | None \<Rightarrow>
               if length (AllowedSources s) > 0 \<and> \<not> contains (AllowedSources s) (source ctx)
               then Ok (Some (ErrSourceNotAllowed @ '': '' @ source ctx))
               else (case ValidateFunc s of None \<Rightarrow> Ok None | Some validate \<Rightarrow> validate ctx))"

subsection \<open>RoutePattern\<close>

datatype RouteType =
  RouteTypeCommand | RouteTypeCallback | RouteTypeMessage | RouteTypeRegex | RouteTypeWildcard
  | RouteTypeOther string

record RoutePattern =
  Patterns :: "string list"
  Handler :: "HandlerFunc option"
  Priority :: int
  Type :: RouteType
  Security :: SecurityRule
  Module :: string
  rp_compiled :: "Regexp list"

text \<open>The placeholder table of \<open>patternToRegex\<close>, keys and values as written in the
  source (raw string literals).\<close>

definition replacements :: "(string \<times> string) list" where
  "replacements =
     [(backslash # ''{id'' @ backslash # ''}'', ''(?P<id>'' @ backslash # ''d+)''),
      (backslash # ''{user'' @ backslash # ''}'', ''(?P<user>'' @ backslash # ''d+)''),
      (backslash # ''{name'' @ backslash # ''}'', ''(?P<name>'' @ backslash # ''w+)''),
      (backslash # ''{text'' @ backslash # ''}'', ''(?P<text>.+)''),
      (backslash # ''{amount'' @ backslash # ''}'', ''(?P<amount>'' @ backslash # ''d+)''),
      (backslash # ''{any'' @ backslash # ''}'', ''(?P<any>.+)'')]"

text \<open>The loop over the table; Go visits the entries of a map in an unspecified order, so
  the order is an argument.  \<open>None\<close>: an expression outside the modelled subset.\<close>

fun replaceLoop :: "(string \<times> string) list \<Rightarrow> string \<Rightarrow> string option" where
  "replaceLoop [] pattern = Some pattern"
| "replaceLoop ((old, new) # rest) pattern =
     (case ReplaceAllString old pattern new of
        None \<Rightarrow> None
      | Some pattern' \<Rightarrow> replaceLoop rest pattern')"

definition patternToRegex_in :: "(string \<times> string) list \<Rightarrow> string \<Rightarrow> string option" where
  "patternToRegex_in table pattern =
     map_option (\<lambda>p. ''^'' @ p @ ''$'') (replaceLoop table (QuoteMeta pattern))"

definition patternToRegex :: "string \<Rightarrow> string option" where
  "patternToRegex pattern = patternToRegex_in replacements pattern"

text \<open>\<open>Compile\<close>: the loop appends to \<open>r.compiled\<close> and stops at the first error.\<close>

fun compileLoop :: "string list \<Rightarrow> Regexp list \<Rightarrow> error option \<times> Regexp list" where
  "compileLoop [] compiled = (None, compiled)"
| "compileLoop (pattern # patterns) compiled =
     (if pattern = ''*'' then compileLoop patterns (compiled @ [dotStar])
      else case patternToRegex pattern of
             None \<Rightarrow> (Some unsupported, compiled)
           | Some regexPattern \<Rightarrow>
               (case regexp_Compile regexPattern of
                  Inl err \<Rightarrow> (Some err, compiled)
                | Inr re \<Rightarrow> compileLoop patterns (compiled @ [re])))"

definition Compile :: "RoutePattern \<Rightarrow> error option \<times> RoutePattern" where
  "Compile r = (case compileLoop (Patterns r) [] of (err, compiled) \<Rightarrow> (err, r\<lparr>rp_compiled := compiled\<rparr>))"

text \<open>\<open>Match\<close>.  The result is \<open>(matched, params)\<close>, \<open>None\<close> being the \<open>nil\<close> map;
  \<open>r.Patterns[i]\<close> panics when \<open>i\<close> is out of range.\<close>

fun namedParams :: "string list \<Rightarrow> string list \<Rightarrow> nat \<Rightarrow> (string \<rightharpoonup> string) \<Rightarrow> (string \<rightharpoonup> string)" where
  "namedParams [] matches i params = params"
| "namedParams (name # names) matches i params =
     namedParams names matches (Suc i)
       (if i > 0 \<and> i < length matches \<and> name \<noteq> [] then params(name \<mapsto> matches ! i) else params)"

definition positionalParams :: "string list \<Rightarrow> (string \<rightharpoonup> string) \<Rightarrow> (string \<rightharpoonup> string)" where
  "positionalParams matches params =
     fold (\<lambda>i ps. ps(positionalKey i \<mapsto> matches ! i)) [1..<length matches] params"

fun matchLoop :: "string list \<Rightarrow> Regexp list \<Rightarrow> nat \<Rightarrow> string \<Rightarrow> (bool \<times> (string \<rightharpoonup> string) option) result" where
  "matchLoop patterns [] i text = Ok (False, None)"
| "matchLoop patterns (re # res) i text =
     (case FindStringSubmatch re text of
        None \<Rightarrow> matchLoop patterns res (Suc i) text
      | Some matches \<Rightarrow>
          if length matches = 1 then Ok (True, Some Map.empty)
          else (let params = namedParams (SubexpNames re) matches 0 Map.empty;
                    params = positionalParams matches params
                in if i < length patterns
                   then Ok (True, Some (params(''_pattern'' \<mapsto> patterns ! i)))
                   else Panic ''index out of range''))"

definition Match :: "RoutePattern \<Rightarrow> string \<Rightarrow> (bool \<times> (string \<rightharpoonup> string) option) result" where
  "Match r text0 =
     (let text = TrimSpace (ToLower text0) in
      if length (rp_compiled r) = 0
      then (case Compile r of
              (Some err, r') \<Rightarrow> Ok (False, None)
            | (None, r') \<Rightarrow> matchLoop (Patterns r') (rp_compiled r') 0 text)
      else matchLoop (Patterns r) (rp_compiled r) 0 text)"

fun MatchType :: "RoutePattern \<Rightarrow> UniversalContext \<Rightarrow> bool" where
  "MatchType r ctx =
     (case Type r of
        RouteTypeCommand \<Rightarrow> isCommand ctx
      | RouteTypeCallback \<Rightarrow> isCallback ctx
      | RouteTypeMessage \<Rightarrow> isMessage ctx
      | RouteTypeRegex \<Rightarrow> True
      | RouteTypeWildcard \<Rightarrow> True
      | RouteTypeOther t \<Rightarrow> False)"

definition securityPrefix :: string where
  "securityPrefix = [CHR 0xF0, CHR 0x9F, CHR 0x9A, CHR 0xAB] @ '' ''"

definition Execute :: "RoutePattern \<Rightarrow> UniversalContext \<Rightarrow> Response result" where
  "Execute r ctx =
     (case Check (Security r) ctx of
        Panic v \<Rightarrow> Panic v
      | Ok (Some err) \<Rightarrow> Ok (NewMessage (securityPrefix @ err))
      | Ok None \<Rightarrow>
          (case Handler r of
             None \<Rightarrow> Panic ''invalid memory address or nil pointer dereference''
           | Some h \<Rightarrow> h ctx))"

text \<open>\<open>NewRoute(patterns...).Handler(h).Build()\<close>.\<close>

definition NewRoute :: "string list \<Rightarrow> HandlerFunc \<Rightarrow> RoutePattern" where
  "NewRoute patterns h =
     \<lparr>Patterns = patterns, Handler = Some h, Priority = 50, Type = RouteTypeCommand,
      Security = \<lparr>RequireAuth = False, RequireRoles = [], RequirePermissions = [],
                  RequireProfile = False, AllowedSources = [], RateLimit = None,
                  ValidateFunc = None\<rparr>,
      Module = [], rp_compiled = []\<rparr>"

subsection \<open>Auxiliary notions for the pattern theorems\<close>

text \<open>
  \<open>guarded s\<close>: every closing brace of \<open>s\<close>, except one at the very beginning, has a
  backslash before it.  \<open>matcherOf\<close>: the expression \<open>Compile\<close> produces for a pattern.
\<close>

fun guarded :: "string \<Rightarrow> bool" where
  "guarded [] = True"
| "guarded [a] = True"
| "guarded (a # b # r) = ((b = CHR ''}'' \<longrightarrow> a = backslash) \<and> guarded (b # r))"

definition matcherOf :: "string \<Rightarrow> Regexp" where
  "matcherOf pattern = (if pattern = ''*'' then dotStar else anchoredLiteral pattern)"

definition silent_handler :: HandlerFunc where
  "silent_handler = (\<lambda>ctx. Ok NewSilentResponse)"

section \<open>Router (routing/router.go) and middleware (middleware/core.go)\<close>

subsection \<open>sort.Slice\<close>

text \<open>
  \<open>sort.Slice(x, less)\<close> belongs to Go's library.  Its documentation promises a slice
  that holds the same elements ordered by \<open>less\<close>, and says that the sort is not
  guaranteed to be stable.  The router is therefore modelled with the sort as an
  argument, and \<open>sortSliceContract\<close> states the promise.
\<close>

type_synonym 'a Slice = "'a list \<Rightarrow> ('a \<Rightarrow> 'a \<Rightarrow> bool) \<Rightarrow> 'a list"

definition sortSliceContract :: "'a Slice \<Rightarrow> ('a \<Rightarrow> 'a \<Rightarrow> bool) \<Rightarrow> bool" where
  "sortSliceContract srt lt =
     (\<forall>xs. mset (srt xs lt) = mset xs \<and> sorted_wrt (\<lambda>a b. \<not> lt b a) (srt xs lt))"

text \<open>
  Two sorts that keep the promise.  \<open>insertionSort\<close> is the insertion sort that the
  library runs on slices of at most 12 elements: each element in turn moves left while
  it is less than its left neighbour (\<open>sink\<close> works on the reversed prefix).
  \<open>insertionSortBefore\<close> moves an element left also past the elements it is equal to.
\<close>

fun sink :: "('a \<Rightarrow> 'a \<Rightarrow> bool) \<Rightarrow> 'a \<Rightarrow> 'a list \<Rightarrow> 'a list" where
  "sink lt x [] = [x]"
| "sink lt x (y # ys) = (if lt x y then y # sink lt x ys else x # y # ys)"

definition insertionSort :: "'a Slice" where
  "insertionSort xs lt = rev (foldl (\<lambda>prefix x. sink lt x prefix) [] xs)"


subsection \<open>Modules, middleware and the router state\<close>

text \<open>
  A module is seen through the results of its methods.  \<open>Routes\<close> returns values of the
  interface \<open>core.RoutePattern\<close>; an entry is a \<open>routing.RoutePattern\<close> or a value of
  another type.  \<open>Events\<close> is \<open>None\<close> for a module that is not event aware.  The event
  bus is seen through the interface \<open>core.EventBus\<close>.
\<close>

datatype RouteItem = RoutingPattern RoutePattern | ForeignPattern

record EventSubscription =
  EventType :: string
  HandlerGiven :: bool
  SubscriptionPriority :: int

record Module =
  Name :: string
  Routes :: "RouteItem list"
  Init :: "error option"
  StartModule :: "error option"
  StopModule :: "error option"
  Events :: "EventSubscription list option"

record WildcardModule = Module +
  WildcardPriority :: int
  ShouldHandle :: "UniversalContext \<Rightarrow> bool result"
  HandleWildcard :: HandlerFunc

record EventBusIface =
  busSubscribe :: "EventSubscription \<Rightarrow> error option"
  busStart :: "error option"
  busStop :: "error option"

record Middleware =
  MiddlewareName :: string
  MiddlewarePriority :: int
  Process :: "UniversalContext \<Rightarrow> HandlerFunc \<Rightarrow> Response result"

record compiledRoute =
  pattern :: RoutePattern
  routeModule :: string
  compiled :: bool

record wildcardHandler =
  wildcardModule :: WildcardModule
  wildcardPriority :: int

text \<open>
  \<open>modules\<close> is a Go map; it is kept as a list of its entries in the order in which a
  \<open>range\<close> loop visits them, which Go leaves unspecified.  The logger and the
  configuration are left out.
\<close>

record Router =
  modules :: "(string \<times> Module) list"
  routes :: "compiledRoute list"
  wildcards :: "wildcardHandler list"
  middlewares :: "Middleware list"
  eventBus :: "EventBusIface option"
  hasDependencies :: bool
  started :: bool

definition NewRouter :: "EventBusIface option \<Rightarrow> Router" where
  "NewRouter bus =
     \<lparr>modules = [], routes = [], wildcards = [], middlewares = [], eventBus = bus,
      hasDependencies = False, started = False\<rparr>"

definition SetDependencies :: "Router \<Rightarrow> Router" where
  "SetDependencies r = r\<lparr>hasDependencies := True\<rparr>"

subsection \<open>Registration\<close>

definition nilDereference :: string where
  "nilDereference = ''invalid memory address or nil pointer dereference''"

fun newRoutes :: "string \<Rightarrow> RouteItem list \<Rightarrow> compiledRoute list" where
  "newRoutes name [] = []"
| "newRoutes name (RoutingPattern p # items) =
     \<lparr>pattern = p, routeModule = name, compiled = False\<rparr> # newRoutes name items"
| "newRoutes name (ForeignPattern # items) = newRoutes name items"

fun subscribeAll :: "EventBusIface option \<Rightarrow> EventSubscription list \<Rightarrow> error option result" where
  "subscribeAll bus [] = Ok None"
| "subscribeAll bus (sub # subs) =
     (case bus of
        None \<Rightarrow> Panic nilDereference
      | Some b \<Rightarrow>
          (case busSubscribe b sub of
             Some err \<Rightarrow> Ok (Some (''failed to subscribe to event '' @ EventType sub @ '': '' @ err))
           | None \<Rightarrow> subscribeAll bus subs))"

text \<open>The result of a registration: what the call returned (or that it panicked) and the
  router it left.\<close>

definition RegisterModule :: "Router \<Rightarrow> Module \<Rightarrow> error option result \<times> Router" where
  "RegisterModule r m =
     (if started r then (Ok (Some ''cannot register module after router started''), r)
      else if map_of (modules r) (Name m) \<noteq> None
        then (Ok (Some (''module '' @ Name m @ '' already registered'')), r)
      else case (if hasDependencies r then Init m else None) of
             Some err \<Rightarrow> (Ok (Some (''failed to init module '' @ Name m @ '': '' @ err)), r)
           | None \<Rightarrow>
               (let r' = r\<lparr>modules := modules r @ [(Name m, m)],
                           routes := routes r @ newRoutes (Name m) (Routes m)\<rparr>
                in case Events m of
                     None \<Rightarrow> (Ok None, r')
                   | Some subs \<Rightarrow> (subscribeAll (eventBus r) subs, r')))"

text \<open>
  \<open>RegisterWildcard\<close> locks \<open>r.mu\<close> and, when the router is not started, calls
  \<open>RegisterModule\<close>, which locks \<open>r.mu\<close> again.  A \<open>sync.RWMutex\<close> is not reentrant:
  the second \<open>Lock\<close> waits for the first to be released, the call never returns
  (\<open>None\<close>), and the code after it is not reached.
\<close>

definition RegisterWildcard :: "Router \<Rightarrow> WildcardModule \<Rightarrow> (error option result \<times> Router) option" where
  "RegisterWildcard r m =
     (if started r then Some (Ok (Some ''cannot register wildcard after router started''), r)
      else None)"

definition RegisterMiddleware :: "Middleware Slice \<Rightarrow> Router \<Rightarrow> Middleware \<Rightarrow> Router" where
  "RegisterMiddleware srt r mw =
     r\<lparr>middlewares := srt (middlewares r @ [mw]) (\<lambda>a b. MiddlewarePriority a > MiddlewarePriority b)\<rparr>"

subsection \<open>Dispatch\<close>

text \<open>The text to match; \<open>data.(string)\<close> panics when the callback payload is not a
  string.\<close>

definition routeText :: "UniversalContext \<Rightarrow> string result" where
  "routeText ctx =
     (if isCallback ctx
      then (case data ctx ''callback_data'' of
              Some (DString s) \<Rightarrow> Ok s
            | Some DOther \<Rightarrow> Panic ''interface conversion: interface {} is not string''
            | None \<Rightarrow> Ok (msgText ctx))
      else Ok (msgText ctx))"

text \<open>\<open>compileRoutesOnce\<close>: the body of the loop, and the loop.  An error of
  \<open>Compile\<close> is logged; the route is marked as compiled in either case.\<close>

definition compileRoute :: "compiledRoute \<Rightarrow> compiledRoute" where
  "compileRoute route =
     (if \<not> compiled route
      then route\<lparr>pattern := snd (Compile (pattern route)), compiled := True\<rparr>
      else route)"

definition compileRoutesOnce :: "Router \<Rightarrow> Router" where
  "compileRoutesOnce r = r\<lparr>routes := map compileRoute (routes r)\<rparr>"

text \<open>The loop over the sorted snapshot: the first route that passes the type filter and
  whose pattern matches, with the parameters of the match.\<close>

fun findRoute :: "compiledRoute list \<Rightarrow> UniversalContext \<Rightarrow> string \<Rightarrow>
    (compiledRoute \<times> (string \<rightharpoonup> string) option) option result" where
  "findRoute [] ctx text = Ok None"
| "findRoute (route # rest) ctx text =
     (if \<not> MatchType (pattern route) ctx then findRoute rest ctx text
      else case Match (pattern route) text of
             Panic v \<Rightarrow> Panic v
           | Ok (matched, params) \<Rightarrow>
               if matched then Ok (Some (route, params)) else findRoute rest ctx text)"

fun findWildcard :: "wildcardHandler list \<Rightarrow> UniversalContext \<Rightarrow> Response result" where
  "findWildcard [] ctx = Ok NewSilentResponse"
| "findWildcard (wc # rest) ctx =
     (case ShouldHandle (wildcardModule wc) ctx of
        Panic v \<Rightarrow> Panic v
      | Ok True \<Rightarrow> HandleWildcard (wildcardModule wc) ctx
      | Ok False \<Rightarrow> findWildcard rest ctx)"

text \<open>\<open>ctx.SetParam(key, value)\<close> for every entry of the matched parameters.\<close>

definition setParams :: "(string \<rightharpoonup> string) option \<Rightarrow> UniversalContext \<Rightarrow> UniversalContext" where
  "setParams matchedParams ctx =
     (case matchedParams of
        None \<Rightarrow> ctx
      | Some ps \<Rightarrow> ctx\<lparr>routeParams := routeParams ctx ++ ps\<rparr>)"

definition routeLess :: "compiledRoute \<Rightarrow> compiledRoute \<Rightarrow> bool" where
  "routeLess a b = (Priority (pattern a) > Priority (pattern b))"

definition routeInternal :: "compiledRoute Slice \<Rightarrow> Router \<Rightarrow> HandlerFunc" where
  "routeInternal srt r ctx =
     (case routeText ctx of
        Panic v \<Rightarrow> Panic v
      | Ok text \<Rightarrow>
          (let r' = compileRoutesOnce r;
               snapshot = srt (routes r') routeLess
           in case findRoute snapshot ctx text of
                Panic v \<Rightarrow> Panic v
              | Ok (Some (matchedRoute, matchedParams)) \<Rightarrow>
                  Execute (pattern matchedRoute) (setParams matchedParams ctx)
              | Ok None \<Rightarrow> findWildcard (wildcards r') ctx))"

text \<open>\<open>Route\<close>: the loop runs from the last middleware to the first, each one wrapping
  the handler built so far.\<close>

definition Route :: "compiledRoute Slice \<Rightarrow> Router \<Rightarrow> HandlerFunc" where
  "Route srt r =
     fold (\<lambda>mw nextHandler. (\<lambda>c. Process mw c nextHandler)) (rev (middlewares r)) (routeInternal srt r)"

subsection \<open>Lifecycle\<close>

fun startModules :: "(string \<times> Module) list \<Rightarrow> error option" where
  "startModules [] = None"
| "startModules ((name, m) # rest) =
     (case StartModule m of
        Some err \<Rightarrow> Some (''failed to start module '' @ name @ '': '' @ err)
      | None \<Rightarrow> startModules rest)"

definition Start :: "Router \<Rightarrow> error option \<times> Router" where
  "Start r =
     (if started r then (Some ''router already started'', r)
      else case startModules (modules r) of
             Some err \<Rightarrow> (Some err, r)
           | None \<Rightarrow>
               (case eventBus r of
                  None \<Rightarrow> (None, r\<lparr>started := True\<rparr>)
                | Some bus \<Rightarrow>
                    (case busStart bus of
                       Some err \<Rightarrow> (Some (''failed to start event bus: '' @ err), r)
                     | None \<Rightarrow> (None, r\<lparr>started := True\<rparr>))))"





subsection \<open>Recovery middleware\<close>

definition recoveryMessage :: string where
  "recoveryMessage =
     [CHR 0xE2, CHR 0x9D, CHR 0x8C] @ '' '' @ [CHR 0xD0, CHR 0x9F, CHR 0xD1, CHR 0x80, CHR 0xD0, CHR 0xBE, CHR 0xD0, CHR 0xB8, CHR 0xD0, CHR 0xB7, CHR 0xD0, CHR 0xBE, CHR 0xD1, CHR 0x88, CHR 0xD0, CHR 0xBB, CHR 0xD0, CHR 0xB0] @ '' '' @ [CHR 0xD0, CHR 0xB2, CHR 0xD0, CHR 0xBD, CHR 0xD1, CHR 0x83, CHR 0xD1, CHR 0x82, CHR 0xD1, CHR 0x80, CHR 0xD0, CHR 0xB5, CHR 0xD0, CHR 0xBD, CHR 0xD0, CHR 0xBD, CHR 0xD1, CHR 0x8F, CHR 0xD1, CHR 0x8F] @ '' '' @ [CHR 0xD0, CHR 0xBE, CHR 0xD1, CHR 0x88, CHR 0xD0, CHR 0xB8, CHR 0xD0, CHR 0xB1, CHR 0xD0, CHR 0xBA, CHR 0xD0, CHR 0xB0] @ ''. '' @ [CHR 0xD0, CHR 0x9F, CHR 0xD0, CHR 0xBE, CHR 0xD0, CHR 0xBF, CHR 0xD1, CHR 0x80, CHR 0xD0, CHR 0xBE, CHR 0xD0, CHR 0xB1, CHR 0xD1, CHR 0x83, CHR 0xD0, CHR 0xB9, CHR 0xD1, CHR 0x82, CHR 0xD0, CHR 0xB5] @ '' '' @ [CHR 0xD0, CHR 0xBF, CHR 0xD0, CHR 0xBE, CHR 0xD0, CHR 0xB7, CHR 0xD0, CHR 0xB6, CHR 0xD0, CHR 0xB5] @ ''.''"

text \<open>
  \<open>RecoveryMiddleware.Process\<close>: the deferred function recovers a panic of \<open>next\<close> and
  sets the named result.  The module is built with Go 1.21, where \<open>recover\<close> returns a
  non-nil value for every panic.
\<close>

definition RecoveryMiddleware_Process :: "UniversalContext \<Rightarrow> HandlerFunc \<Rightarrow> Response result" where
  "RecoveryMiddleware_Process ctx next =
     (case next ctx of
        Panic v \<Rightarrow> Ok (NewMessage recoveryMessage)
      | Ok response \<Rightarrow> Ok response)"

definition NewRecoveryMiddleware :: "int \<Rightarrow> Middleware" where
  "NewRecoveryMiddleware priority =
     \<lparr>MiddlewareName = ''recovery'', MiddlewarePriority = priority,
      Process = RecoveryMiddleware_Process\<rparr>"

subsection \<open>Notions used to state the router theorems\<close>

text \<open>
  \<open>chain\<close> is the handler that the specification describes: the first middleware of
  the list is the outermost one, the terminal handler the innermost.
  \<open>registerAll\<close> registers a sequence of middlewares, one call each.
\<close>

fun chain :: "Middleware list \<Rightarrow> HandlerFunc \<Rightarrow> HandlerFunc" where
  "chain [] terminal = terminal"
| "chain (mw # mws) terminal = (\<lambda>c. Process mw c (chain mws terminal))"

definition registerAll :: "Middleware Slice \<Rightarrow> Router \<Rightarrow> Middleware list \<Rightarrow> Router" where
  "registerAll srt r mws = foldl (RegisterMiddleware srt) r mws"

text \<open>
  A route is eligible for a context and a text when its type filter accepts the context
  and its pattern matches the text.  The cache of a pattern is valid when it is empty or
  holds the expressions \<open>Compile\<close> produces from the pattern's texts; \<open>compiled\<close> is a
  private field that only \<open>Compile\<close> writes.
\<close>

definition eligible :: "compiledRoute \<Rightarrow> UniversalContext \<Rightarrow> string \<Rightarrow> bool" where
  "eligible route ctx text =
     (MatchType (pattern route) ctx \<and>
      (case Match (pattern route) text of Ok (matched, params) \<Rightarrow> matched | Panic v \<Rightarrow> False))"

definition cacheValid :: "RoutePattern \<Rightarrow> bool" where
  "cacheValid p = (rp_compiled p = [] \<or> rp_compiled p = map matcherOf (Patterns p))"

text \<open>Sample middlewares, handlers and routers.  A tagging middleware puts its name in
  front of the message that the rest of the chain returns.\<close>

definition tagging :: "string \<Rightarrow> int \<Rightarrow> Middleware" where
  "tagging name priority =
     \<lparr>MiddlewareName = name, MiddlewarePriority = priority,
      Process = (\<lambda>c next. case next c of
                    Ok (NewMessage s) \<Rightarrow> Ok (NewMessage (name @ s))
                  | Ok other \<Rightarrow> Ok (NewMessage name)
                  | Panic v \<Rightarrow> Panic v)\<rparr>"

definition panicking_handler :: HandlerFunc where
  "panicking_handler = (\<lambda>ctx. Panic ''boom'')"

definition reply :: "string \<Rightarrow> HandlerFunc" where
  "reply s = (\<lambda>ctx. Ok (NewMessage s))"

definition sample_module :: "string \<Rightarrow> RoutePattern list \<Rightarrow> Module" where
  "sample_module name ps =
     \<lparr>Name = name, Routes = map RoutingPattern ps, Init = None, StartModule = None,
      StopModule = None, Events = None\<rparr>"




text \<open>A router with one module, whose only route answers \<open>hello\<close> with a handler that
  panics, and with the recovery middleware registered.\<close>

definition panicking_router :: Router where
  "panicking_router =
     registerAll insertionSort
       (snd (RegisterModule (NewRouter None)
          (sample_module ''m'' [NewRoute [''hello''] panicking_handler])))
       [NewRecoveryMiddleware 100]"


text \<open>A router with three routes for the text \<open>hello\<close>, registered in the order low
  priority, high priority, and a callback route of still higher priority.\<close>

definition dispatch_router :: Router where
  "dispatch_router =
     snd (RegisterModule (NewRouter None)
       (sample_module ''m''
          [(NewRoute [''hello''] (reply ''low''))\<lparr>Priority := 10\<rparr>,
           (NewRoute [''hello''] (reply ''high''))\<lparr>Priority := 90\<rparr>,
           (NewRoute [''hello''] (reply ''callback''))\<lparr>Priority := 99, Type := RouteTypeCallback\<rparr>]))"

section \<open>Rate limiter: the fixed window\<close>

lemma int64_wrap_id: "- (2 ^ 63) \<le> x \<Longrightarrow> x < 2 ^ 63 \<Longrightarrow> int64_wrap x = x"
proof -
  assume a: "- (2 ^ 63) \<le> x" "x < 2 ^ 63"
  have "(x + 2 ^ 63) mod 2 ^ 64 = x + 2 ^ 63"
    using a by (intro mod_pos_pos_trivial) simp_all
  then show ?thesis by (simp add: int64_wrap_def)
qed

lemma windowDuration_exact:
  assumes "- 9223372036 \<le> Window (config r)" "Window (config r) \<le> 9223372036"
  shows "windowDuration r = Window (config r) * Second"
  unfolding windowDuration_def using assms by (intro int64_wrap_id) (simp_all add: Second_def)

lemma Allow_expired:
  "expired r ctx now \<Longrightarrow>
     Allow r ctx now = (True, r\<lparr>counters := (counters r)(getKey ctx \<mapsto> freshCounter r now)\<rparr>)"
  by (auto simp: Allow_def expired_def Let_def split: option.splits)

lemma Allow_increment:
  "counters r (getKey ctx) = Some c \<Longrightarrow> now \<le> ResetAt c \<Longrightarrow> Count c < Requests (config r) \<Longrightarrow>
     Allow r ctx now = (True, r\<lparr>counters := (counters r)(getKey ctx \<mapsto>
                                 c\<lparr>Count := Count c + 1, UpdatedAt := now\<rparr>)\<rparr>)"
  by (simp add: Allow_def Let_def)

lemma Allow_deny:
  "counters r (getKey ctx) = Some c \<Longrightarrow> now \<le> ResetAt c \<Longrightarrow> Requests (config r) \<le> Count c \<Longrightarrow>
     Allow r ctx now = (False, r)"
  by (simp add: Allow_def Let_def)

lemma AllowTimes_within:
  "counters r (getKey ctx) = Some c \<Longrightarrow> \<forall>t\<in>set ts. t \<le> ResetAt c \<Longrightarrow>
   Count c + int (length ts) \<le> Requests (config r) \<Longrightarrow>
   \<exists>r' c'. AllowTimes r ctx ts = (replicate (length ts) True, r') \<and> config r' = config r \<and>
       counters r' (getKey ctx) = Some c' \<and> Count c' = Count c + int (length ts) \<and>
       ResetAt c' = ResetAt c"
proof (induction ts arbitrary: r c)
  case Nil
  then show ?case by simp
next
  case (Cons t ts)
  let ?c1 = "c\<lparr>Count := Count c + 1, UpdatedAt := t\<rparr>"
  let ?r1 = "r\<lparr>counters := (counters r)(getKey ctx \<mapsto> ?c1)\<rparr>"
  have step: "Allow r ctx t = (True, ?r1)"
    using Cons.prems by (intro Allow_increment) auto
  have "\<exists>r' c'. AllowTimes ?r1 ctx ts = (replicate (length ts) True, r') \<and> config r' = config ?r1 \<and>
       counters r' (getKey ctx) = Some c' \<and> Count c' = Count ?c1 + int (length ts) \<and>
       ResetAt c' = ResetAt ?c1"
    using Cons.prems by (intro Cons.IH) auto
  then obtain r' c' where "AllowTimes ?r1 ctx ts = (replicate (length ts) True, r')"
     "config r' = config r" "counters r' (getKey ctx) = Some c'"
     "Count c' = Count c + 1 + int (length ts)" "ResetAt c' = ResetAt c"
    by auto
  then show ?case using step by simp
qed

lemma AllowTimes_append:
  "AllowTimes r ctx (ts @ us) =
     (case AllowTimes r ctx ts of (bs, r') \<Rightarrow>
        (case AllowTimes r' ctx us of (cs, r'') \<Rightarrow> (bs @ cs, r'')))"
  by (induction ts arbitrary: r) (auto split: prod.splits)


lemma getKey_ctx0: "getKey ctx0 = ''user:1:chat:1''"
  by (simp add: getKey_def ctx0_def Sprintf_d_def decimal.simps digit_char_def)

lemmas limiter_eval = limiter_def NewRateLimiter_def Allow_def getKey_ctx0 freshCounter_def
  windowDuration_def int64_wrap_def Second_def Let_def expired_def Reset_def

text \<open>
  Claim C2, as the code has it.  Let a limiter have maximum \<open>N \<ge> 1\<close> and a window of
  \<open>W\<close> seconds whose length in nanoseconds fits a 64-bit signed integer.  If at instant
  \<open>t0\<close> no counter is stored for the key, or the stored window has expired, then
  \<open>Allow\<close> returns true and installs a counter with count 1 and expiry
  \<open>t0 + W\<close>; together with the calls that follow within that window, the first
  \<open>N\<close> calls return true and call \<open>N + 1\<close> returns false; a call after the window
  has elapsed returns true again and installs a counter with count 1 and a new expiry.
\<close>

theorem Allow_fixed_window:
  assumes fresh: "expired r ctx t0"
    and N: "1 \<le> Requests (config r)"
    and W: "- 9223372036 \<le> Window (config r)" "Window (config r) \<le> 9223372036"
    and len: "length ts = nat (Requests (config r))"
    and within: "\<forall>t\<in>set ts. t \<le> t0 + Window (config r) * Second"
    and later: "t0 + Window (config r) * Second < t'"
  shows "\<exists>r1 r2 r3.
      Allow r ctx t0 = (True, r1) \<and>
      counters r1 (getKey ctx) =
        Some \<lparr>Count = 1, ResetAt = t0 + Window (config r) * Second, UpdatedAt = t0\<rparr> \<and>
      AllowTimes r ctx (t0 # ts) = (replicate (nat (Requests (config r))) True @ [False], r2) \<and>
      Allow r2 ctx t' = (True, r3) \<and>
      counters r3 (getKey ctx) =
        Some \<lparr>Count = 1, ResetAt = t' + Window (config r) * Second, UpdatedAt = t'\<rparr>"
proof -
  let ?k = "getKey ctx"
  let ?R = "t0 + Window (config r) * Second"
  let ?c1 = "\<lparr>Count = 1, ResetAt = ?R, UpdatedAt = t0\<rparr>"
  let ?r1 = "r\<lparr>counters := (counters r)(?k \<mapsto> ?c1)\<rparr>"
  have dur: "windowDuration r = Window (config r) * Second"
    using W by (rule windowDuration_exact)
  have first: "Allow r ctx t0 = (True, ?r1)"
    using Allow_expired [OF fresh] by (simp add: freshCounter_def dur)
  have c1: "counters ?r1 ?k = Some ?c1" by simp
  from len N obtain us u where ts: "ts = us @ [u]"
    by (cases ts rule: rev_cases) auto
  have lus: "int (length us) = Requests (config r) - 1"
    using len N ts by simp
  have "\<exists>r' c'. AllowTimes ?r1 ctx us = (replicate (length us) True, r') \<and>
       config r' = config ?r1 \<and> counters r' ?k = Some c' \<and>
       Count c' = Count ?c1 + int (length us) \<and> ResetAt c' = ResetAt ?c1"
    using within ts lus by (intro AllowTimes_within [OF c1]) auto
  then obtain r' c' where mid: "AllowTimes ?r1 ctx us = (replicate (length us) True, r')"
    and cfg: "config r' = config r" and c': "counters r' ?k = Some c'"
    and cnt: "Count c' = Requests (config r)" and rst: "ResetAt c' = ?R"
    using lus by auto
  have deny: "Allow r' ctx u = (False, r')"
    using c' within ts cnt rst cfg by (intro Allow_deny) auto
  have run: "AllowTimes r ctx (t0 # ts) = (replicate (length us) True @ [True] @ [False], r')"
    using first mid deny by (simp add: ts AllowTimes_append replicate_append_same)
  have "replicate (length us) True @ [True] = replicate (Suc (length us)) True"
    by (simp add: replicate_append_same)
  moreover have "Suc (length us) = nat (Requests (config r))"
    using len ts by simp
  ultimately have run': "AllowTimes r ctx (t0 # ts) =
      (replicate (nat (Requests (config r))) True @ [False], r')"
    using run by simp
  have exp': "expired r' ctx t'"
    using c' rst later by (simp add: expired_def)
  have dur': "windowDuration r' = Window (config r) * Second"
    using dur cfg by (simp add: windowDuration_def)
  have last: "Allow r' ctx t' =
      (True, r'\<lparr>counters := (counters r')(?k \<mapsto>
          \<lparr>Count = 1, ResetAt = t' + Window (config r) * Second, UpdatedAt = t'\<rparr>)\<rparr>)"
    using Allow_expired [OF exp'] by (simp add: freshCounter_def dur')
  show ?thesis
    using first c1 run' last by (intro exI conjI) (assumption | simp)+
qed

theorem Allow_fixed_window_witness:
  "expired (limiter 2 60) ctx0 5 \<and>
   (\<exists>r1 r2 r3.
      Allow (limiter 2 60) ctx0 5 = (True, r1) \<and>
      counters r1 (getKey ctx0) = Some \<lparr>Count = 1, ResetAt = 60000000005, UpdatedAt = 5\<rparr> \<and>
      AllowTimes (limiter 2 60) ctx0 [5, 6, 60000000005] = ([True, True, False], r2) \<and>
      Allow r2 ctx0 60000000006 = (True, r3) \<and>
      counters r3 (getKey ctx0) =
        Some \<lparr>Count = 1, ResetAt = 120000000006, UpdatedAt = 60000000006\<rparr>)"
proof -
  have e: "expired (limiter 2 60) ctx0 5"
    by (simp add: limiter_eval)
  have c: "config (limiter 2 60) = \<lparr>Requests = 2, Window = 60, BurstSize = 0, Strategy = ''sliding_window''\<rparr>"
    by (simp add: limiter_eval)
  show ?thesis
    using e Allow_fixed_window [of "limiter 2 60" ctx0 5 "[6, 60000000005]" 60000000006]
    by (simp add: c Second_def numeral_2_eq_2)
qed



text \<open>
  The claim as stated, for every maximum and window, fails: with maximum 0 the first call
  is allowed, and with a window of \<open>10^10\<close> seconds the nanosecond product wraps, so the
  installed expiry is not \<open>now + W\<close>.
\<close>

theorem Allow_zero_limit_counterexample:
  "fst (AllowTimes (limiter 0 10000000000) ctx0 [0]) \<noteq>
      replicate (nat (Requests (config (limiter 0 10000000000)))) True @ [False] \<and>
   (\<exists>c. counters (snd (Allow (limiter 0 10000000000) ctx0 0)) (getKey ctx0) = Some c \<and>
        ResetAt c \<noteq> 0 + Window (config (limiter 0 10000000000)) * Second)"
  by (simp add: limiter_def NewRateLimiter_def Allow_def getKey_ctx0 freshCounter_def windowDuration_def
     int64_wrap_def Second_def Let_def)

section \<open>Rate limiter: Reset\<close>

lemma digit_char_mem: "k < 10 \<Longrightarrow> digit_char k \<in> set ''0123456789''"
  unfolding digit_char_def by (rule nth_mem) simp

lemma set_decimal: "set (decimal n) \<subseteq> set ''0123456789''"
proof (induction n rule: decimal.induct)
  case (1 n)
  show ?case
  proof (cases "n < 10")
    case True
    have "decimal n = [digit_char n]" using True by (subst decimal.simps) simp
    then show ?thesis using digit_char_mem [OF True] by simp
  next
    case False
    have e: "decimal n = decimal (n div 10) @ [digit_char (n mod 10)]"
      using False by (subst decimal.simps) simp
    have "n mod 10 < 10" by simp
    then have m: "digit_char (n mod 10) \<in> set ''0123456789''" by (rule digit_char_mem)
    have "set (decimal (n div 10)) \<subseteq> set ''0123456789''" using 1 False by simp
    then show ?thesis unfolding e using m by simp
  qed
qed


lemma c_notin_Sprintf_d: "CHR ''c'' \<notin> set (Sprintf_d i)"
proof -
  have "CHR ''c'' \<notin> set ''0123456789''" by simp
  then have "CHR ''c'' \<notin> set (decimal n)" for n using set_decimal [of n] by blast
  then show ?thesis by (simp add: Sprintf_d_def)
qed

lemma Reset_key_neq_getKey: "''user:'' @ Sprintf_d uid \<noteq> getKey ctx"
proof -
  have "CHR ''c'' \<in> set (getKey ctx)" by (simp add: getKey_def)
  moreover have "CHR ''c'' \<notin> set (''user:'' @ Sprintf_d uid)"
    using c_notin_Sprintf_d [of uid] by simp
  ultimately show ?thesis by metis
qed

lemma Reset_keeps_Allow_counter: "counters (Reset r uid) (getKey ctx) = counters r (getKey ctx)"
  using Reset_key_neq_getKey [of uid ctx] by (simp add: Reset_def)

lemma Reset_keeps_Allow_verdict: "fst (Allow (Reset r uid) ctx now) = fst (Allow r ctx now)"
proof -
  have "config (Reset r uid) = config r" by (simp add: Reset_def)
  then show ?thesis
    using Reset_keeps_Allow_counter [of r uid ctx]
    by (simp add: Allow_def Let_def split: option.splits)
qed


text \<open>
  Claim C8 at a concrete input.  With maximum 1 and a 60 second window, user 1 in
  conversation 1 is allowed once and then denied; after \<open>Reset\<close> with user id 1 the
  counter that \<open>Allow\<close> keeps (under the key of \<open>getKey\<close>) is still stored, and
  the next \<open>Allow\<close> for that user is denied again.
\<close>

theorem Reset_misses_Allow_counter:
  "fst (AllowTimes (limiter 1 60) ctx0 [0, 1]) = [True, False] \<and>
   fst (Allow (Reset (snd (AllowTimes (limiter 1 60) ctx0 [0, 1])) (userID ctx0)) ctx0 2) = False \<and>
   counters (Reset (snd (AllowTimes (limiter 1 60) ctx0 [0, 1])) (userID ctx0)) (getKey ctx0)
     = Some \<lparr>Count = 1, ResetAt = 60000000000, UpdatedAt = 0\<rparr>"
proof -
  let ?cfg = "\<lparr>Requests = 1, Window = 60, BurstSize = 0, Strategy = ''sliding_window''\<rparr>"
  let ?c = "\<lparr>Count = 1, ResetAt = 60000000000, UpdatedAt = 0\<rparr>"
  let ?r1 = "\<lparr>config = ?cfg, counters = [''user:1:chat:1'' \<mapsto> ?c]\<rparr>"
  have u: "userID ctx0 = 1" by (simp add: ctx0_def)
  have k: "Sprintf_d 1 = ''1''"
    by (simp add: Sprintf_d_def decimal.simps digit_char_def)
  have a1: "Allow (limiter 1 60) ctx0 0 = (True, ?r1)"
    by (simp add: limiter_def NewRateLimiter_def Allow_def getKey_ctx0 freshCounter_def
        windowDuration_def int64_wrap_def Second_def)
  have a2: "Allow ?r1 ctx0 1 = (False, ?r1)"
    by (simp add: Allow_def getKey_ctx0)
  have run: "AllowTimes (limiter 1 60) ctx0 [0, 1] = ([True, False], ?r1)"
    by (simp add: a1 a2)
  have rs: "Reset ?r1 1 = ?r1"
    by (simp add: Reset_def k)
  have a3: "Allow ?r1 ctx0 2 = (False, ?r1)"
    by (simp add: Allow_def getKey_ctx0)
  show ?thesis
    unfolding run u by (simp add: rs a3 getKey_ctx0)
qed

section \<open>Event bus: synchronous fan-out\<close>






section \<open>Patterns: what Compile and Match compute\<close>

lemma literalOf_QuoteMeta: "literalOf (QuoteMeta p) = Some p"
proof (induction p)
  case Nil
  then show ?case by simp
next
  case (Cons c cs)
  have b: "backslash \<in> set specialBytes" by (simp add: specialBytes_def)
  show ?case
  proof (cases "c \<in> set specialBytes")
    case True
    then show ?thesis using Cons by simp
  next
    case False
    then have "c \<noteq> backslash" using b by auto
    then show ?thesis using False Cons by simp
  qed
qed

lemma brace_special: "CHR ''}'' \<in> set specialBytes"
  by (simp add: specialBytes_def)

lemma backslash_neq_brace: "backslash \<noteq> CHR ''}''"
  by (simp add: backslash_def)

lemma guarded_QuoteMeta:
  "guarded (QuoteMeta p) \<and> (QuoteMeta p \<noteq> [] \<longrightarrow> hd (QuoteMeta p) \<noteq> CHR ''}'')"
proof (induction p)
  case Nil
  then show ?case by simp
next
  case (Cons c cs)
  have tl: "guarded (x # QuoteMeta cs)" for x
    using Cons by (cases "QuoteMeta cs") auto
  show ?case
  proof (cases "c \<in> set specialBytes")
    case True
    then show ?thesis using tl [of c] backslash_neq_brace by simp
  next
    case False
    then have "c \<noteq> CHR ''}''" using brace_special by auto
    then show ?thesis using False tl [of c] by simp
  qed
qed

lemma guarded_tl: "guarded (c # cs) \<Longrightarrow> guarded cs"
  by (cases cs) auto

lemma guarded_inner: "guarded (pre @ a # b # rest) \<Longrightarrow> b = CHR ''}'' \<Longrightarrow> a = backslash"
proof (induction pre)
  case Nil
  then show ?case by simp
next
  case (Cons x pre)
  then have "guarded (pre @ a # b # rest)" using guarded_tl by (metis append_Cons)
  then show ?case using Cons by simp
qed

lemma guarded_no_placeholder:
  assumes "guarded s" "x \<noteq> backslash"
  shows "take (length (pre @ [x, CHR ''}''])) s \<noteq> pre @ [x, CHR ''}'']"
proof
  assume eq: "take (length (pre @ [x, CHR ''}''])) s = pre @ [x, CHR ''}'']"
  have "s = take (length (pre @ [x, CHR ''}''])) s @ drop (length (pre @ [x, CHR ''}''])) s"
    by simp
  then have "s = pre @ x # CHR ''}'' # drop (length (pre @ [x, CHR ''}''])) s"
    using eq by (metis append.assoc append_Cons append_Nil)
  then have "guarded (pre @ x # CHR ''}'' # drop (length (pre @ [x, CHR ''}''])) s)"
    using assms(1) by simp
  then have "x = backslash" by (rule guarded_inner) simp
  then show False using assms(2) by simp
qed

lemma replaceAll_guarded:
  "guarded s \<Longrightarrow> x \<noteq> backslash \<Longrightarrow> replaceAll (pre @ [x, CHR ''}'']) repl s = s"
proof (induction s)
  case Nil
  then show ?case by simp
next
  case (Cons c cs)
  have "take (length (pre @ [x, CHR ''}''])) (c # cs) \<noteq> pre @ [x, CHR ''}'']"
    using Cons.prems by (rule guarded_no_placeholder)
  moreover have "replaceAll (pre @ [x, CHR ''}'']) repl cs = cs"
    using Cons guarded_tl by blast
  ultimately show ?case by simp
qed


lemma literalOf_name:
  "set nm \<inter> set specialBytes = {} \<Longrightarrow> literalOf (nm @ [backslash, CHR ''}'']) = Some (nm @ ''}'')"
proof (induction nm)
  case Nil
  then show ?case by (simp add: brace_special)
next
  case (Cons c nm)
  have "backslash \<in> set specialBytes" by (simp add: specialBytes_def)
  then have "c \<noteq> backslash" using Cons.prems by auto
  then show ?case using Cons by simp
qed

lemma ReplaceAllString_placeholder:
  assumes nm: "set (pre @ [x]) \<inter> set specialBytes = {}"
    and repl: "CHR ''$'' \<notin> set new"
    and g: "guarded s"
  shows "ReplaceAllString (backslash # CHR ''{'' # (pre @ [x]) @ [backslash, CHR ''}'']) s new = Some s"
proof -
  have "backslash \<in> set specialBytes" by (simp add: specialBytes_def)
  then have x: "x \<noteq> backslash" using nm by auto
  have "CHR ''{'' \<in> set specialBytes" by (simp add: specialBytes_def)
  then have lit: "literalOf (backslash # CHR ''{'' # (pre @ [x]) @ [backslash, CHR ''}''])
      = Some (CHR ''{'' # (pre @ [x]) @ ''}'')"
    using literalOf_name [OF nm] by simp
  have "replaceAll ((CHR ''{'' # pre) @ [x, CHR ''}'']) new s = s"
    using g x by (rule replaceAll_guarded)
  then have "replaceAll (CHR ''{'' # (pre @ [x]) @ ''}'') new s = s" by simp
  then show ?thesis unfolding ReplaceAllString_def lit using repl by simp
qed

lemma specialBytes_set:
  "set specialBytes = {CHR 0x5C, CHR ''.'', CHR ''+'', CHR ''*'', CHR ''?'', CHR ''('', CHR '')'',
      CHR ''|'', CHR ''['', CHR '']'', CHR ''{'', CHR ''}'', CHR ''^'', CHR ''$''}"
  by (simp add: specialBytes_def backslash_def)

lemma ReplaceAllString_table:
  assumes mem: "(old, new) \<in> set replacements" and g: "guarded s"
  shows "ReplaceAllString old s new = Some s"
proof -
  have b: "backslash \<noteq> CHR ''$''" by (simp add: backslash_def)
  note R = ReplaceAllString_placeholder [OF _ _ g]
  have 1: "ReplaceAllString (backslash # ''{id'' @ backslash # ''}'') s (''(?P<id>'' @ backslash # ''d+)'') = Some s"
    using R [of "''i''" "CHR ''d''" "''(?P<id>'' @ backslash # ''d+)''"] b by (simp add: specialBytes_set)
  have 2: "ReplaceAllString (backslash # ''{user'' @ backslash # ''}'') s (''(?P<user>'' @ backslash # ''d+)'') = Some s"
    using R [of "''use''" "CHR ''r''" "''(?P<user>'' @ backslash # ''d+)''"] b by (simp add: specialBytes_set)
  have 3: "ReplaceAllString (backslash # ''{name'' @ backslash # ''}'') s (''(?P<name>'' @ backslash # ''w+)'') = Some s"
    using R [of "''nam''" "CHR ''e''" "''(?P<name>'' @ backslash # ''w+)''"] b by (simp add: specialBytes_set)
  have 4: "ReplaceAllString (backslash # ''{text'' @ backslash # ''}'') s ''(?P<text>.+)'' = Some s"
    using R [of "''tex''" "CHR ''t''" "''(?P<text>.+)''"] by (simp add: specialBytes_set)
  have 5: "ReplaceAllString (backslash # ''{amount'' @ backslash # ''}'') s (''(?P<amount>'' @ backslash # ''d+)'') = Some s"
    using R [of "''amoun''" "CHR ''t''" "''(?P<amount>'' @ backslash # ''d+)''"] b by (simp add: specialBytes_set)
  have 6: "ReplaceAllString (backslash # ''{any'' @ backslash # ''}'') s ''(?P<any>.+)'' = Some s"
    using R [of "''an''" "CHR ''y''" "''(?P<any>.+)''"] by (simp add: specialBytes_set)
  from mem have "(old, new) \<in> {(backslash # ''{id'' @ backslash # ''}'', ''(?P<id>'' @ backslash # ''d+)''),
      (backslash # ''{user'' @ backslash # ''}'', ''(?P<user>'' @ backslash # ''d+)''),
      (backslash # ''{name'' @ backslash # ''}'', ''(?P<name>'' @ backslash # ''w+)''),
      (backslash # ''{text'' @ backslash # ''}'', ''(?P<text>.+)''),
      (backslash # ''{amount'' @ backslash # ''}'', ''(?P<amount>'' @ backslash # ''d+)''),
      (backslash # ''{any'' @ backslash # ''}'', ''(?P<any>.+)'')}"
    unfolding replacements_def by (simp only: list.set)
  then show ?thesis
    using 1 2 3 4 5 6 by (elim insertE emptyE) (simp_all only: prod.inject)
qed

lemma replaceLoop_table:
  "set table \<subseteq> set replacements \<Longrightarrow> guarded s \<Longrightarrow> replaceLoop table s = Some s"
proof (induction table)
  case Nil
  then show ?case by simp
next
  case (Cons e table)
  obtain old new where e: "e = (old, new)" by (cases e)
  have "ReplaceAllString old s new = Some s"
    using Cons.prems e by (intro ReplaceAllString_table) auto
  then show ?case using Cons e by simp
qed

lemma patternToRegex_in_table:
  "set table \<subseteq> set replacements \<Longrightarrow> patternToRegex_in table p = Some (''^'' @ QuoteMeta p @ ''$'')"
  using guarded_QuoteMeta [of p] by (simp add: patternToRegex_in_def replaceLoop_table)

lemma patternToRegex_eq: "patternToRegex p = Some (''^'' @ QuoteMeta p @ ''$'')"
  by (simp add: patternToRegex_def patternToRegex_in_table)

lemma regexp_Compile_quoted:
  "regexp_Compile (CHR ''^'' # QuoteMeta p @ ''$'') = Inr (anchoredLiteral p)"
proof -
  have "butlast (QuoteMeta p @ ''$'') = QuoteMeta p"
    by (simp add: butlast_append)
  then show ?thesis
    by (simp add: regexp_Compile_def literalOf_QuoteMeta)
qed

text \<open>No pattern makes \<open>Compile\<close> fail or leave the modelled subset of expressions.\<close>

lemma compileLoop_eq: "compileLoop ps acc = (None, acc @ map matcherOf ps)"
  by (induction ps arbitrary: acc) (simp_all add: patternToRegex_eq regexp_Compile_quoted matcherOf_def)

lemma Compile_succeeds: "Compile r = (None, r\<lparr>rp_compiled := map matcherOf (Patterns r)\<rparr>)"
  by (simp add: Compile_def compileLoop_eq)

lemma matchLoop_matcherOf:
  "matchLoop pats (map matcherOf ps) i text =
     Ok (if ''*'' \<in> set ps \<or> text \<in> set ps then (True, Some Map.empty) else (False, None))"
  by (induction ps arbitrary: i) (auto simp: matcherOf_def dotStar_def anchoredLiteral_def)

lemma Match_uncompiled:
  "rp_compiled r = [] \<Longrightarrow>
   Match r text =
     Ok (if ''*'' \<in> set (Patterns r) \<or> TrimSpace (ToLower text) \<in> set (Patterns r)
         then (True, Some Map.empty) else (False, None))"
  by (simp add: Match_def Compile_succeeds matchLoop_matcherOf)

lemma NewRoute_fields [simp]:
  "Patterns (NewRoute ps h) = ps" "rp_compiled (NewRoute ps h) = []"
  by (simp_all add: NewRoute_def)

lemma Match_params_empty:
  "rp_compiled r = [] \<Longrightarrow> Match r text = Ok (True, Some Map.empty) \<or> Match r text = Ok (False, None)"
  by (simp add: Match_uncompiled)

text \<open>What the code after a match does with an expression that has one named group.\<close>

lemma char_of_49: "char_of (49::nat) = CHR ''1''"
  by code_simp

lemma positionalKey_1: "positionalKey (Suc 0) = ''1''"
  by (simp add: positionalKey_def utf8_def char_of_49)

lemma matchLoop_one_group:
  assumes "FindStringSubmatch re text = Some [whole, g]" and "SubexpNames re = [[], name]"
    and "name \<noteq> []"
  shows "matchLoop [p] [re] 0 text =
     Ok (True, Some ([name \<mapsto> g, ''1'' \<mapsto> g, ''_pattern'' \<mapsto> p]))"
  using assms by (simp add: positionalParams_def positionalKey_1 Let_def)




text \<open>
  Claim C10 at a concrete input.  The pattern \<open>order {id}\<close> is compiled to an expression
  in which the placeholder is still an escaped literal, not a capture group: it does not
  match \<open>order 42\<close>, and it matches the text \<open>order {id}\<close> with an empty parameter map
  (no named capture, no positional key, no \<open>_pattern\<close> key).
\<close>

theorem Match_placeholder_not_substituted:
  "patternToRegex ''order {id}'' = Some (''^order '' @ [backslash] @ ''{id'' @ [backslash] @ ''}$'') \<and>
   Match (NewRoute [''order {id}''] silent_handler) ''order 42'' = Ok (False, None) \<and>
   Match (NewRoute [''order {id}''] silent_handler) ''order {id}'' = Ok (True, Some Map.empty)"
proof -
  have q: "QuoteMeta ''order {id}'' = ''order '' @ [backslash] @ ''{id'' @ [backslash] @ ''}''"
    by (simp add: specialBytes_def backslash_def)
  have n: "TrimSpace (ToLower ''order 42'') = ''order 42''"
     "TrimSpace (ToLower ''order {id}'') = ''order {id}''"
    by (simp_all add: TrimSpace_def ToLower_def ToLower_char_def isSpace_def)
  have p: "patternToRegex ''order {id}'' = Some (''^order '' @ [backslash] @ ''{id'' @ [backslash] @ ''}$'')"
    unfolding patternToRegex_eq q by simp
  show ?thesis by (simp add: p Match_uncompiled n)
qed

section \<open>Both insertion sorts keep the promise of sort.Slice\<close>

lemma mset_sink: "mset (sink lt x ys) = add_mset x (mset ys)"
  by (induction ys) auto

lemma set_sink: "set (sink lt x ys) = insert x (set ys)"
  by (induction ys) auto

lemma mset_foldl_sink: "mset (foldl (\<lambda>prefix x. sink lt x prefix) acc xs) = mset acc + mset xs"
  by (induction xs arbitrary: acc) (auto simp: mset_sink)

lemma sorted_sink:
  fixes f :: "'a \<Rightarrow> int"
  assumes up: "\<And>a b. lt a b \<Longrightarrow> f b \<le> f a" and down: "\<And>a b. \<not> lt a b \<Longrightarrow> f a \<le> f b"
  shows "sorted_wrt (\<lambda>a b. f a \<le> f b) ys \<Longrightarrow> sorted_wrt (\<lambda>a b. f a \<le> f b) (sink lt x ys)"
proof (induction ys)
  case Nil
  then show ?case by simp
next
  case (Cons y ys)
  show ?case
  proof (cases "lt x y")
    case True
    then have "f y \<le> f x" by (rule up)
    then show ?thesis using True Cons by (auto simp: set_sink)
  next
    case False
    then have "f x \<le> f y" by (rule down)
    then show ?thesis using False Cons.prems by fastforce
  qed
qed

lemma sorted_foldl_sink:
  fixes f :: "'a \<Rightarrow> int"
  assumes up: "\<And>a b. lt a b \<Longrightarrow> f b \<le> f a" and down: "\<And>a b. \<not> lt a b \<Longrightarrow> f a \<le> f b"
  shows "sorted_wrt (\<lambda>a b. f a \<le> f b) acc \<Longrightarrow>
         sorted_wrt (\<lambda>a b. f a \<le> f b) (foldl (\<lambda>prefix x. sink lt x prefix) acc xs)"
proof (induction xs arbitrary: acc)
  case Nil
  then show ?case by simp
next
  case (Cons x xs)
  have "sorted_wrt (\<lambda>a b. f a \<le> f b) (sink lt x acc)"
    using up down Cons.prems by (rule sorted_sink)
  then show ?case using Cons.IH by simp
qed

lemma insertionSort_contract:
  fixes f :: "'a \<Rightarrow> int"
  shows "sortSliceContract insertionSort (\<lambda>a b. f a > f b)"
proof -
  have s: "sorted_wrt (\<lambda>a b. f a \<le> f b) (foldl (\<lambda>prefix x. sink (\<lambda>a b. f a > f b) x prefix) [] xs)" for xs
    by (rule sorted_foldl_sink) auto
  have "sorted_wrt (\<lambda>a b. \<not> f b > f a) (insertionSort xs (\<lambda>a b. f a > f b))" for xs
    using s [of xs] by (simp add: insertionSort_def sorted_wrt_rev not_less)
  then show ?thesis
    by (simp add: sortSliceContract_def insertionSort_def mset_foldl_sink)
qed


section \<open>Middleware chain\<close>

lemma foldr_chain: "foldr (\<lambda>mw nextHandler. (\<lambda>c. Process mw c nextHandler)) mws terminal = chain mws terminal"
  by (induction mws) auto

lemma Route_chain: "Route srt r = chain (middlewares r) (routeInternal srt r)"
  by (simp add: Route_def foldr_chain flip: foldr_conv_fold)


lemma routes_registerAll [simp]:
  "routes (registerAll srt r mws) = routes r" "wildcards (registerAll srt r mws) = wildcards r"
  by (induction mws rule: rev_induct) (simp_all add: registerAll_def RegisterMiddleware_def)



lemma routeText_ctx0: "routeText ctx0 = Ok ''hello''"
  by (simp add: routeText_def ctx0_def)



lemma Route_no_middleware: "middlewares r = [] \<Longrightarrow> Route srt r = routeInternal srt r"
  by (simp add: Route_def)




section \<open>Dispatch, recovery and lifecycle\<close>

lemma Compile_snd: "snd (Compile p) = p\<lparr>rp_compiled := map matcherOf (Patterns p)\<rparr>"
  by (simp add: Compile_succeeds)

lemma Match_cacheValid:
  assumes "cacheValid p"
  shows "Match p text =
     Ok (if ''*'' \<in> set (Patterns p) \<or> TrimSpace (ToLower text) \<in> set (Patterns p)
         then (True, Some Map.empty) else (False, None))"
proof (cases "rp_compiled p = []")
  case True
  then show ?thesis by (rule Match_uncompiled)
next
  case False
  then have "rp_compiled p = map matcherOf (Patterns p)"
    using assms by (simp add: cacheValid_def)
  then show ?thesis using False by (simp add: Match_def matchLoop_matcherOf)
qed

lemma Execute_NewRoute: "Execute (NewRoute ps h) ctx = h ctx"
  by (simp add: Execute_def NewRoute_def Check_def)

lemma panicking_router_middlewares: "middlewares panicking_router = [NewRecoveryMiddleware 100]"
  by (simp add: panicking_router_def registerAll_def RegisterMiddleware_def RegisterModule_def
      NewRouter_def insertionSort_def sample_module_def Let_def)

lemma panicking_router_routes:
  "routes panicking_router =
     [\<lparr>pattern = NewRoute [''hello''] panicking_handler, routeModule = ''m'', compiled = False\<rparr>]"
  "wildcards panicking_router = []"
  by (simp_all add: panicking_router_def RegisterModule_def NewRouter_def sample_module_def Let_def)

lemma norm_hello: "TrimSpace (ToLower ''hello'') = ''hello''"
  by (simp add: TrimSpace_def ToLower_def ToLower_char_def isSpace_def)

lemma panicking_router_internal: "routeInternal insertionSort panicking_router ctx0 = Panic ''boom''"
proof -
  let ?p = "NewRoute [''hello''] panicking_handler"
  let ?p' = "?p\<lparr>rp_compiled := [matcherOf ''hello'']\<rparr>"
  let ?route = "\<lparr>pattern = ?p', routeModule = ''m'', compiled = True\<rparr>"
  have cr: "routes (compileRoutesOnce panicking_router) = [?route]"
    by (simp add: compileRoutesOnce_def compileRoute_def panicking_router_routes Compile_snd)
  have srt: "insertionSort [?route] routeLess = [?route]"
    by (simp add: insertionSort_def)
  have valid: "cacheValid ?p'" by (simp add: cacheValid_def NewRoute_def)
  have m: "Match ?p' ''hello'' = Ok (True, Some Map.empty)"
    using Match_cacheValid [OF valid, of "''hello''"] by (simp add: norm_hello NewRoute_def)
  have mt: "MatchType ?p' ctx0" by (simp add: NewRoute_def ctx0_def)
  have f: "findRoute [?route] ctx0 ''hello'' = Ok (Some (?route, Some Map.empty))"
    using m mt by simp
  have ex: "Execute ?p' c = Panic ''boom''" for c
    by (simp add: Execute_def NewRoute_def Check_def panicking_handler_def)
  show ?thesis
    unfolding routeInternal_def routeText_ctx0 by (simp add: cr srt f ex Let_def del: findRoute.simps)
qed

text \<open>
  Claim C4.  Whatever the next handler does, \<open>RecoveryMiddleware.Process\<close> returns a
  response; when the next handler panics, the response is the fixed message.  Hence
  \<open>Route\<close> on a router whose outermost (first) middleware is the recovery middleware
  always returns a response, and returns the fixed message when the rest of the chain
  panics.
\<close>

theorem Recovery_contains_panics:
  "(\<exists>response. RecoveryMiddleware_Process ctx next = Ok response) \<and>
   (next ctx = Panic v \<longrightarrow> RecoveryMiddleware_Process ctx next = Ok (NewMessage recoveryMessage)) \<and>
   (middlewares r = NewRecoveryMiddleware p # rest \<longrightarrow>
      (\<exists>response. Route srt r ctx = Ok response) \<and>
      (chain rest (routeInternal srt r) ctx = Panic v \<longrightarrow>
         Route srt r ctx = Ok (NewMessage recoveryMessage)))"
proof -
  have a: "\<exists>response. RecoveryMiddleware_Process c h = Ok response" for c h
    by (cases "h c") (simp_all add: RecoveryMiddleware_Process_def)
  have b: "h c = Panic v \<Longrightarrow> RecoveryMiddleware_Process c h = Ok (NewMessage recoveryMessage)" for c h
    by (simp add: RecoveryMiddleware_Process_def)
  have r: "Route srt r ctx = RecoveryMiddleware_Process ctx (chain rest (routeInternal srt r))"
    if "middlewares r = NewRecoveryMiddleware p # rest"
    using that by (simp add: Route_chain NewRecoveryMiddleware_def)
  show ?thesis using a b r by auto
qed

theorem Recovery_contains_panics_witness:
  "routeInternal insertionSort panicking_router ctx0 = Panic ''boom'' \<and>
   Route insertionSort panicking_router ctx0 = Ok (NewMessage recoveryMessage)"
  using Recovery_contains_panics [of ctx0 "routeInternal insertionSort panicking_router" "''boom''"
      panicking_router 100 "[]" insertionSort]
  by (simp add: panicking_router_internal panicking_router_middlewares)

subsection \<open>Registration after Start\<close>

lemma RegisterModule_after_start:
  "started r \<Longrightarrow> RegisterModule r m = (Ok (Some ''cannot register module after router started''), r)"
  by (simp add: RegisterModule_def)

lemma RegisterWildcard_after_start:
  "started r \<Longrightarrow> RegisterWildcard r m = Some (Ok (Some ''cannot register wildcard after router started''), r)"
  by (simp add: RegisterWildcard_def)

lemma RegisterMiddleware_grows:
  assumes "sortSliceContract srt (\<lambda>a b. MiddlewarePriority a > MiddlewarePriority b)"
  shows "mset (middlewares (RegisterMiddleware srt r mw)) = add_mset mw (mset (middlewares r))"
  using assms by (simp add: RegisterMiddleware_def sortSliceContract_def)

text \<open>
  Claim C5 at a concrete input.  \<open>Start\<close> succeeds on a new router; registering a
  middleware on the started router reports no error and changes the registry: the list
  of middlewares, empty before, holds the new middleware afterwards.
\<close>

theorem RegisterMiddleware_after_start:
  "Start (NewRouter None) = (None, (NewRouter None)\<lparr>started := True\<rparr>) \<and>
   middlewares ((NewRouter None)\<lparr>started := True\<rparr>) = [] \<and>
   middlewares (RegisterMiddleware insertionSort ((NewRouter None)\<lparr>started := True\<rparr>) (tagging ''late'' 1))
     = [tagging ''late'' 1]"
  by (simp add: Start_def NewRouter_def RegisterMiddleware_def insertionSort_def)

subsection \<open>Stop\<close>







section \<open>Dispatch: priority first, first match wins\<close>

text \<open>The caches of the routes stay valid: routes are registered with the cache that
  \<open>NewRoute\<close> leaves empty, and only \<open>Compile\<close> writes it.\<close>

lemma cacheValid_NewRoute: "cacheValid (NewRoute ps h)"
  by (simp add: cacheValid_def)

lemma newRoutes_cacheValid:
  "\<forall>p. RoutingPattern p \<in> set items \<longrightarrow> cacheValid p \<Longrightarrow>
     \<forall>route\<in>set (newRoutes name items). cacheValid (pattern route)"
proof (induction items)
  case Nil
  then show ?case by simp
next
  case (Cons item items)
  then show ?case by (cases item) auto
qed

lemma RegisterModule_cacheValid:
  assumes "\<forall>route\<in>set (routes r). cacheValid (pattern route)"
    and "\<forall>p. RoutingPattern p \<in> set (Routes m) \<longrightarrow> cacheValid p"
  shows "\<forall>route\<in>set (routes (snd (RegisterModule r m))). cacheValid (pattern route)"
  using assms newRoutes_cacheValid [OF assms(2), of "Name m"]
  by (auto simp: RegisterModule_def Let_def split: option.splits)

lemma compileRoute_fields [simp]:
  "Priority (pattern (compileRoute x)) = Priority (pattern x)"
  "Type (pattern (compileRoute x)) = Type (pattern x)"
  "Security (pattern (compileRoute x)) = Security (pattern x)"
  "Handler (pattern (compileRoute x)) = Handler (pattern x)"
  "Patterns (pattern (compileRoute x)) = Patterns (pattern x)"
  by (simp_all add: compileRoute_def Compile_snd)

lemma compileRoute_cacheValid: "cacheValid (pattern x) \<Longrightarrow> cacheValid (pattern (compileRoute x))"
  by (simp add: compileRoute_def Compile_snd cacheValid_def)

lemma compileRoutesOnce_cacheValid:
  "\<forall>route\<in>set (routes r). cacheValid (pattern route) \<Longrightarrow>
     \<forall>route\<in>set (routes (compileRoutesOnce r)). cacheValid (pattern route)"
  by (auto simp: compileRoutesOnce_def compileRoute_cacheValid)

lemma MatchType_compileRoute [simp]: "MatchType (pattern (compileRoute x)) ctx = MatchType (pattern x) ctx"
  by simp

lemma Execute_compileRoute [simp]: "Execute (pattern (compileRoute x)) = Execute (pattern x)"
  by (rule ext) (simp add: Execute_def split: result.splits option.splits)

lemma eligible_cacheValid:
  "cacheValid (pattern x) \<Longrightarrow>
   eligible x ctx text =
     (MatchType (pattern x) ctx \<and>
      (''*'' \<in> set (Patterns (pattern x)) \<or> TrimSpace (ToLower text) \<in> set (Patterns (pattern x))))"
  by (simp add: eligible_def Match_cacheValid)

lemma eligible_compileRoute:
  "cacheValid (pattern x) \<Longrightarrow> eligible (compileRoute x) ctx text = eligible x ctx text"
  using compileRoute_cacheValid [of x] by (simp add: eligible_cacheValid del: MatchType.simps)

lemma eligible_Match:
  "cacheValid (pattern x) \<Longrightarrow> eligible x ctx text \<Longrightarrow> Match (pattern x) text = Ok (True, Some Map.empty)"
  by (simp add: eligible_def Match_cacheValid split: if_splits)

lemma not_eligible_Match:
  "cacheValid (pattern x) \<Longrightarrow> \<not> eligible x ctx text \<Longrightarrow> MatchType (pattern x) ctx \<Longrightarrow>
     Match (pattern x) text = Ok (False, None)"
  by (simp add: eligible_def Match_cacheValid split: if_splits)

lemma findRoute_first:
  assumes "\<forall>x\<in>set pre. cacheValid (pattern x) \<and> \<not> eligible x ctx text"
    and "cacheValid (pattern sel)" and "eligible sel ctx text"
  shows "findRoute (pre @ sel # post) ctx text = Ok (Some (sel, Some Map.empty))"
  using assms(1)
proof (induction pre)
  case Nil
  have "MatchType (pattern sel) ctx" using assms(3) by (simp add: eligible_def)
  then show ?case using eligible_Match [OF assms(2,3)] by simp
next
  case (Cons x pre)
  then have x: "cacheValid (pattern x)" "\<not> eligible x ctx text" by auto
  have rest: "findRoute (pre @ sel # post) ctx text = Ok (Some (sel, Some Map.empty))"
    using Cons by simp
  show ?case
  proof (cases "MatchType (pattern x) ctx")
    case True
    then show ?thesis using not_eligible_Match [OF x True] rest by simp
  next
    case False
    then show ?thesis using rest by simp
  qed
qed

lemma findRoute_none:
  "\<forall>x\<in>set rs. cacheValid (pattern x) \<and> \<not> eligible x ctx text \<Longrightarrow> findRoute rs ctx text = Ok None"
proof (induction rs)
  case Nil
  then show ?case by simp
next
  case (Cons x rs)
  then have x: "cacheValid (pattern x)" "\<not> eligible x ctx text" by auto
  have rest: "findRoute rs ctx text = Ok None" using Cons by simp
  show ?case
  proof (cases "MatchType (pattern x) ctx")
    case True
    then show ?thesis using not_eligible_Match [OF x True] rest by simp
  next
    case False
    then show ?thesis using rest by simp
  qed
qed


lemma sorted_after:
  "sorted_wrt (\<lambda>a b. \<not> routeLess b a) (pre @ sel # post) \<Longrightarrow> x \<in> set post \<Longrightarrow>
     Priority (pattern x) \<le> Priority (pattern sel)"
  by (auto simp: sorted_wrt_append routeLess_def)

lemma routeInternal_no_match:
  assumes c: "sortSliceContract srt routeLess"
    and t: "routeText ctx = Ok text"
    and v: "\<forall>route\<in>set (routes r). cacheValid (pattern route)"
    and e: "\<forall>route\<in>set (routes r). \<not> eligible route ctx text"
  shows "routeInternal srt r ctx = findWildcard (wildcards r) ctx"
proof -
  let ?R = "routes (compileRoutesOnce r)"
  let ?S = "srt ?R routeLess"
  have R: "?R = map compileRoute (routes r)" by (simp add: compileRoutesOnce_def)
  have "mset ?S = mset ?R" using c by (simp add: sortSliceContract_def)
  then have set: "set ?S = compileRoute ` set (routes r)"
    using R by (metis set_mset_mset set_map)
  have "\<forall>x\<in>set ?S. cacheValid (pattern x) \<and> \<not> eligible x ctx text"
    using set v e compileRoute_cacheValid eligible_compileRoute by auto
  then have "findRoute ?S ctx text = Ok None" by (rule findRoute_none)
  then show ?thesis by (simp add: routeInternal_def t Let_def compileRoutesOnce_def)
qed


lemma insertionSort_routeLess: "sortSliceContract insertionSort routeLess"
proof -
  have eq: "routeLess = (\<lambda>a b. Priority (pattern a) > Priority (pattern b))"
    by (intro ext) (simp add: routeLess_def)
  show ?thesis
    by (subst eq) (rule insertionSort_contract)
qed

lemma dispatch_router_routes:
  "routes dispatch_router =
     [\<lparr>pattern = (NewRoute [''hello''] (reply ''low''))\<lparr>Priority := 10\<rparr>, routeModule = ''m'', compiled = False\<rparr>,
      \<lparr>pattern = (NewRoute [''hello''] (reply ''high''))\<lparr>Priority := 90\<rparr>, routeModule = ''m'', compiled = False\<rparr>,
      \<lparr>pattern = (NewRoute [''hello''] (reply ''callback''))\<lparr>Priority := 99, Type := RouteTypeCallback\<rparr>,
        routeModule = ''m'', compiled = False\<rparr>]"
  "wildcards dispatch_router = []"
  by (simp_all add: dispatch_router_def RegisterModule_def NewRouter_def sample_module_def Let_def)

lemma dispatch_router_internal: "routeInternal insertionSort dispatch_router ctx0 = Ok (NewMessage ''high'')"
proof -
  let ?low = "\<lparr>pattern = (NewRoute [''hello''] (reply ''low''))\<lparr>Priority := 10, rp_compiled := [matcherOf ''hello'']\<rparr>,
                routeModule = ''m'', compiled = True\<rparr>"
  let ?high = "\<lparr>pattern = (NewRoute [''hello''] (reply ''high''))\<lparr>Priority := 90, rp_compiled := [matcherOf ''hello'']\<rparr>,
                routeModule = ''m'', compiled = True\<rparr>"
  let ?cb = "\<lparr>pattern = (NewRoute [''hello''] (reply ''callback''))\<lparr>Priority := 99, Type := RouteTypeCallback,
                   rp_compiled := [matcherOf ''hello'']\<rparr>,
                routeModule = ''m'', compiled = True\<rparr>"
  have cr: "routes (compileRoutesOnce dispatch_router) = [?low, ?high, ?cb]"
    by (simp add: compileRoutesOnce_def compileRoute_def dispatch_router_routes Compile_snd NewRoute_def)
  have srt: "insertionSort [?low, ?high, ?cb] routeLess = [?cb, ?high, ?low]"
    by (simp add: insertionSort_def routeLess_def NewRoute_def)
  have valid: "cacheValid (pattern ?high)" by (simp add: cacheValid_def NewRoute_def)
  have m: "Match (pattern ?high) ''hello'' = Ok (True, Some Map.empty)"
    using Match_cacheValid [OF valid, of "''hello''"] by (simp add: norm_hello NewRoute_def)
  have mt: "\<not> MatchType (pattern ?cb) ctx0" "MatchType (pattern ?high) ctx0"
    by (simp_all add: NewRoute_def ctx0_def)
  have f: "findRoute [?cb, ?high, ?low] ctx0 ''hello'' = Ok (Some (?high, Some Map.empty))"
    using m mt by simp
  have ex: "Execute ((NewRoute [''hello''] (reply ''high''))\<lparr>Priority := 90, rp_compiled := [matcherOf ''hello'']\<rparr>) c
      = Ok (NewMessage ''high'')" for c
    by (simp add: Execute_def NewRoute_def Check_def reply_def)
  show ?thesis
    unfolding routeInternal_def routeText_ctx0 by (simp add: cr srt f ex Let_def del: findRoute.simps)
qed

text \<open>
  Claim C1.  Let the sort keep the promise of \<open>sort.Slice\<close>, let the text to match be
  defined, and let some registered route be eligible, that is, accepted by its type
  filter and matching the text.  Then the sorted snapshot splits into routes that are not
  eligible, a selected route, and the rest; the selected route is eligible, no eligible
  route has a higher priority, whatever the order of registration; the loop returns the
  selected route whatever follows it in the snapshot; and dispatch returns the result of
  executing the selected route on the context with the matched parameters set.
\<close>

theorem routeInternal_priority_first:
  assumes c: "sortSliceContract srt routeLess"
    and t: "routeText ctx = Ok text"
    and v: "\<forall>route\<in>set (routes r). cacheValid (pattern route)"
    and e: "\<exists>route\<in>set (routes r). eligible route ctx text"
  shows "\<exists>pre sel post.
     srt (routes (compileRoutesOnce r)) routeLess = pre @ sel # post \<and>
     (\<forall>route\<in>set pre. \<not> eligible route ctx text) \<and>
     eligible sel ctx text \<and>
     (\<forall>route\<in>set (routes r). eligible route ctx text \<longrightarrow>
        Priority (pattern route) \<le> Priority (pattern sel)) \<and>
     (\<forall>post'. findRoute (pre @ sel # post') ctx text = Ok (Some (sel, Some Map.empty))) \<and>
     routeInternal srt r ctx = Execute (pattern sel) (setParams (Some Map.empty) ctx)"
proof -
  let ?R = "routes (compileRoutesOnce r)"
  let ?S = "srt ?R routeLess"
  have R: "?R = map compileRoute (routes r)" by (simp add: compileRoutesOnce_def)
  have ms: "mset ?S = mset ?R" and so: "sorted_wrt (\<lambda>a b. \<not> routeLess b a) ?S"
    using c by (simp_all add: sortSliceContract_def)
  have set: "set ?S = compileRoute ` set (routes r)"
    using ms R by (metis set_mset_mset set_map)
  have valid: "cacheValid (pattern x)" if "x \<in> set ?S" for x
    using that set v compileRoute_cacheValid by auto
  have "\<exists>x\<in>set ?S. eligible x ctx text"
    using e v set eligible_compileRoute by blast
  then obtain pre sel post where split: "?S = pre @ sel # post"
    and sel: "eligible sel ctx text" and pre: "\<forall>x\<in>set pre. \<not> eligible x ctx text"
    using split_list_first_prop [of ?S "\<lambda>x. eligible x ctx text"] by blast
  have vpre: "\<forall>x\<in>set pre. cacheValid (pattern x) \<and> \<not> eligible x ctx text"
    using pre valid split by simp
  have vsel: "cacheValid (pattern sel)" using valid split by simp
  have first: "findRoute (pre @ sel # post') ctx text = Ok (Some (sel, Some Map.empty))" for post'
    using vpre vsel sel by (rule findRoute_first)
  have max: "Priority (pattern route) \<le> Priority (pattern sel)"
    if mem: "route \<in> set (routes r)" and el: "eligible route ctx text" for route
  proof -
    have c1: "compileRoute route \<in> set ?S" using mem set by simp
    have c2: "eligible (compileRoute route) ctx text"
      using el v mem eligible_compileRoute by blast
    from c1 split have "compileRoute route \<in> set pre \<or> compileRoute route = sel \<or> compileRoute route \<in> set post"
      by auto
    then have "Priority (pattern (compileRoute route)) \<le> Priority (pattern sel)"
      using c2 pre sorted_after [of pre sel post "compileRoute route"] so split by auto
    then show ?thesis by simp
  qed
  have run: "routeInternal srt r ctx = Execute (pattern sel) (setParams (Some Map.empty) ctx)"
    using first [of post] by (simp add: routeInternal_def t Let_def flip: split)
  show ?thesis
    using split pre sel max first run by blast
qed

theorem routeInternal_priority_first_witness:
  "(\<exists>sel. eligible sel ctx0 ''hello'' \<and>
      routeInternal insertionSort dispatch_router ctx0 =
        Execute (pattern sel) (setParams (Some Map.empty) ctx0)) \<and>
   routeInternal insertionSort dispatch_router ctx0 = Ok (NewMessage ''high'')"
proof -
  have v: "\<forall>route\<in>set (routes dispatch_router). cacheValid (pattern route)"
    by (simp add: dispatch_router_routes cacheValid_def NewRoute_def)
  have "cacheValid ((NewRoute [''hello''] (reply ''low''))\<lparr>Priority := 10\<rparr>)"
    by (simp add: cacheValid_def NewRoute_def)
  then have "eligible \<lparr>pattern = (NewRoute [''hello''] (reply ''low''))\<lparr>Priority := 10\<rparr>,
      routeModule = ''m'', compiled = False\<rparr> ctx0 ''hello''"
    by (simp add: eligible_cacheValid norm_hello) (simp add: NewRoute_def ctx0_def)
  then have e: "\<exists>route\<in>set (routes dispatch_router). eligible route ctx0 ''hello''"
    by (simp add: dispatch_router_routes)
  from routeInternal_priority_first [OF insertionSort_routeLess routeText_ctx0 v e]
  show ?thesis using dispatch_router_internal by blast
qed

end
